theory Spec2Isabelle
  imports Complex_Main "HOL-Library.Char_ord" "HOL-Library.List_Lexorder"
begin

section \<open>The Noto emoji downloader (scripts/download_noto_emoji.py)\<close>

text \<open>
  The script fetches a catalog of emoji, downloads one Lottie file per emoji through
  \<open>download_one\<close> (primary URL, then an underscore form of the URL), counts the outcomes
  and writes two index files. The embedding below makes the script's surroundings explicit:
  the file system and the sequence of requests and completed writes are a \<open>world\<close> value
  passed through every function, the answers of the network and the faults of the file
  system are fields of an \<open>env\<close> value, and every exception is a value of type \<open>exn\<close>.

  Python strings are sequences of code points; here a string is a \<open>char list\<close> holding the
  UTF-8 bytes. The three characters the script looks for (colon, hyphen, space) are ASCII
  and never occur inside a multi-byte sequence, so \<open>strip\<close> and \<open>replace\<close> act the same on
  both readings.
\<close>

subsection \<open>Data\<close>

text \<open>
  One element of the catalog's \<open>icons\<close> list. It is a JSON object, so every key may be
  absent: \<open>None\<close> is the absent key. \<open>emoji["codepoint"]\<close> and \<open>emoji["name"]\<close> raise
  KeyError on an absent key, \<open>emoji.get(key, default)\<close> does not.
\<close>

record emoji =
  codepoint :: "string option"
  name :: "string option"
  tags :: "string list option"
  categories :: "string list option"
  popularity :: "int option"

text \<open>The exceptions the script can meet; all of them are subclasses of \<open>Exception\<close>.\<close>

datatype exn =
    KeyError string
  | RequestException string
  | OSError string
  | JSONDecodeError string

text \<open>What \<open>requests.get\<close> does: it returns a response or raises (timeout, no connection).\<close>

datatype http_result =
    Response int string
  | Raises exn

text \<open>
  The catalog request. The body of the response is kept as the value of
  \<open>response.json()["icons"]\<close>, which is a list of emoji or raises.
\<close>

datatype catalog_result =
    CatalogResponse int "exn + emoji list"
  | CatalogRaises exn

text \<open>
  A write \<open>with open(path, 'w') as f: ...\<close> can fail when the file is opened, which leaves
  the file system as it was, or while the data is written, which leaves a torn file.
\<close>

datatype write_fault =
    OpenRaises exn
  | WriteRaises exn

text \<open>The dictionary appended to a category's list in \<open>download_all\<close>.\<close>

record summary =
  s_codepoint :: string
  s_name :: string
  s_tags :: "string list"
  s_popularity :: int

text \<open>
  A Python dict keeps its keys in insertion order, and \<open>json.dump\<close> writes them in that
  order, so the category index is an association list.
\<close>

type_synonym category_index = "(string \<times> summary list) list"

datatype file_content =
    Bytes string
  | CatalogJson "emoji list"
  | IndexJson category_index
  | Torn

datatype event =
    Get string
  | Wrote string

text \<open>
  The file system (regular files by path, compared as strings) and the trace of the
  requests issued and of the writes completed, oldest first.
\<close>

record world =
  files :: "string \<rightharpoonup> file_content"
  trace :: "event list"

text \<open>
  The surroundings of a run. \<open>output_dir\<close> is the script's \<open>OUTPUT_DIR\<close>, which depends on
  where the script is installed. The answers may change over time: they are indexed by the
  length of the trace at the moment of the call.
\<close>

record env =
  output_dir :: string
  http_get :: "nat \<Rightarrow> string \<Rightarrow> http_result"
  catalog_get :: catalog_result
  write_fault_at :: "nat \<Rightarrow> string \<Rightarrow> write_fault option"

text \<open>
  The triple \<open>(status, msg, size)\<close> that \<open>download_one\<close> returns. The message is a string
  formatted from the values kept here: the tag and the size for \<open>"ok"\<close>, the name and the
  primary response's status for \<open>"failed"\<close>, the name and the exception for \<open>"error"\<close>.
  The size is \<open>len(content) / 1024\<close>, a number of kilobytes; division by 1024 and sums of
  such values are exact in double precision below \<open>2^53\<close> bytes, so it is a rational here.
\<close>

datatype outcome =
    Ok string rat
  | Skipped string
  | Failed string int
  | Error string exn

subsection \<open>Strings, URLs and paths\<close>

definition DATA_URL :: string where
  "DATA_URL = ''https://googlefonts.github.io/noto-emoji-animation/data/api.json''"

definition BASE_URL :: string where
  "BASE_URL = ''https://fonts.gstatic.com/s/e/notoemoji/latest''"

text \<open>\<open>s.strip(c)\<close> for a one-character \<open>c\<close>: every leading and every trailing \<open>c\<close> goes.\<close>

definition strip :: "char \<Rightarrow> string \<Rightarrow> string" where
  "strip c s = rev (dropWhile (\<lambda>x. x = c) (rev (dropWhile (\<lambda>x. x = c) s)))"

text \<open>\<open>s.replace(a, b)\<close> for one-character \<open>a\<close> and \<open>b\<close>.\<close>

definition replace :: "char \<Rightarrow> char \<Rightarrow> string \<Rightarrow> string" where
  "replace a b s = map (\<lambda>x. if x = a then b else x) s"

text \<open>\<open>os.path.join(a, b)\<close> of posixpath.\<close>

definition path_join :: "string \<Rightarrow> string \<Rightarrow> string" where
  "path_join a b =
     (if b \<noteq> [] \<and> hd b = CHR ''/'' then b
      else if a = [] \<or> last a = CHR ''/'' then a @ b
      else a @ ''/'' @ b)"

definition primary_url :: "string \<Rightarrow> string" where
  "primary_url cp = BASE_URL @ ''/'' @ cp @ ''/lottie.json''"

definition fallback_url :: "string \<Rightarrow> string" where
  "fallback_url cp = BASE_URL @ ''/'' @ replace CHR '' '' CHR ''_'' cp @ ''/lottie.json''"

definition exists :: "world \<Rightarrow> string \<Rightarrow> bool" where
  "exists w p = (files w p \<noteq> None)"

definition issue :: "string \<Rightarrow> world \<Rightarrow> world" where
  "issue url w = w\<lparr>trace := trace w @ [Get url]\<rparr>"

text \<open>Opening a file for writing and writing the whole content; \<open>Some\<close> is the exception.\<close>

definition write_file :: "env \<Rightarrow> string \<Rightarrow> file_content \<Rightarrow> world \<Rightarrow> exn option \<times> world" where
  "write_file env path c w =
     (case write_fault_at env (length (trace w)) path of
        None \<Rightarrow> (None, w\<lparr>files := (files w)(path \<mapsto> c), trace := trace w @ [Wrote path]\<rparr>)
      | Some (OpenRaises ex) \<Rightarrow> (Some ex, w)
      | Some (WriteRaises ex) \<Rightarrow> (Some ex, w\<lparr>files := (files w)(path \<mapsto> Torn)\<rparr>))"

subsection \<open>download_one\<close>

text \<open>Lines 28-29: \<open>tags = emoji.get("tags", []); tag = tags[0] if tags else name\<close>.\<close>

definition tag_of :: "emoji \<Rightarrow> string \<Rightarrow> string" where
  "tag_of e nm =
     (case (case tags e of None \<Rightarrow> [] | Some ts \<Rightarrow> ts) of
        [] \<Rightarrow> nm
      | t # _ \<Rightarrow> t)"

text \<open>
  Line 32 without the extension: \<open>f"{codepoint}_{tag.strip(':').replace('-', '_')}"\<close>.
\<close>

definition destination_key :: "string \<Rightarrow> string \<Rightarrow> string" where
  "destination_key cp tag = cp @ ''_'' @ replace CHR ''-'' CHR ''_'' (strip CHR '':'' tag)"

text \<open>Lines 26-33: the destination path, or the KeyError of a missing key.\<close>

definition filepath_of :: "env \<Rightarrow> emoji \<Rightarrow> exn + string" where
  "filepath_of env e =
     (case codepoint e of
        None \<Rightarrow> Inl (KeyError ''codepoint'')
      | Some cp \<Rightarrow>
          (case name e of
             None \<Rightarrow> Inl (KeyError ''name'')
           | Some nm \<Rightarrow>
               Inr (path_join (output_dir env) (destination_key cp (tag_of e nm) @ ''.json''))))"

definition size_kb :: "string \<Rightarrow> rat" where
  "size_kb body = of_nat (length body) / 1024"

text \<open>Lines 44-47 and 54-57: write the body, then return \<open>"ok"\<close>; inside the \<open>try\<close>.\<close>

definition save :: "env \<Rightarrow> string \<Rightarrow> string \<Rightarrow> string \<Rightarrow> string \<Rightarrow> world \<Rightarrow> outcome \<times> world" where
  "save env filepath nm tag body w =
     (case write_file env filepath (Bytes body) w of
        (Some ex, w') \<Rightarrow> (Error nm ex, w')
      | (None, w') \<Rightarrow> (Ok tag (size_kb body), w'))"

text \<open>Lines 41-60: the \<open>try\<close> block, entered when the destination does not exist.\<close>

definition attempt :: "env \<Rightarrow> string \<Rightarrow> string \<Rightarrow> string \<Rightarrow> string \<Rightarrow> world \<Rightarrow> outcome \<times> world" where
  "attempt env cp nm tag filepath w =
     (let url = primary_url cp;
          w1 = issue url w
      in case http_get env (length (trace w)) url of
           Raises ex \<Rightarrow> (Error nm ex, w1)
         | Response st body \<Rightarrow>
             if st = 200 then save env filepath nm tag body w1
             else
               (let url2 = fallback_url cp;
                    w2 = issue url2 w1
                in case http_get env (length (trace w1)) url2 of
                     Raises ex \<Rightarrow> (Error nm ex, w2)
                   | Response st2 body2 \<Rightarrow>
                       if st2 = 200 then save env filepath nm tag body2 w2
                       else (Failed nm st, w2)))"

text \<open>
  \<open>download_one(emoji, index, total)\<close>. \<open>Inl\<close> is an exception that leaves the function:
  only the two subscripts before the \<open>try\<close> can raise one.
\<close>

definition download_one :: "env \<Rightarrow> emoji \<Rightarrow> nat \<Rightarrow> nat \<Rightarrow> world \<Rightarrow> (exn + outcome) \<times> world" where
  "download_one env e index n_total w =
     (case codepoint e of
        None \<Rightarrow> (Inl (KeyError ''codepoint''), w)
      | Some cp \<Rightarrow>
          (case name e of
             None \<Rightarrow> (Inl (KeyError ''name''), w)
           | Some nm \<Rightarrow>
               (let tag = tag_of e nm;
                    filename = destination_key cp tag @ ''.json'';
                    filepath = path_join (output_dir env) filename
                in if exists w filepath then (Inr (Skipped nm), w)
                   else (case attempt env cp nm tag filepath w of
                           (out, w') \<Rightarrow> (Inr out, w')))))"

subsection \<open>download_all\<close>

text \<open>The four counters of lines 84-87.\<close>

record counters =
  downloaded :: nat
  skipped :: nat
  failed :: nat
  total_size :: rat

definition zero_counters :: counters where
  "zero_counters = \<lparr>downloaded = 0, skipped = 0, failed = 0, total_size = 0\<rparr>"

text \<open>Lines 99-109, one completed future; the throttled printing is left out.\<close>

fun tally :: "counters \<Rightarrow> outcome \<Rightarrow> counters" where
  "tally c (Ok msg sz) = c\<lparr>downloaded := downloaded c + 1, total_size := total_size c + sz\<rparr>"
| "tally c (Skipped nm) = c\<lparr>skipped := skipped c + 1\<rparr>"
| "tally c other = c\<lparr>failed := failed c + 1\<rparr>"

text \<open>
  Lines 96-109: the loop over the completed futures. \<open>future.result()\<close> raises again what
  the call raised, which ends the loop and the run.
\<close>

fun collect :: "counters \<Rightarrow> (exn + outcome) list \<Rightarrow> exn + counters" where
  "collect c [] = Inr c"
| "collect c (Inl ex # rs) = Inl ex"
| "collect c (Inr out # rs) = collect (tally c out) rs"

text \<open>
  Lines 90-94: every emoji of the catalog is submitted with its position. The ten worker
  threads are modelled as one: the calls run one after another in the order of submission,
  each as a whole, and all of them run even when one raises (leaving the \<open>with\<close> block
  waits for the pool). Properties below that hold for every list of emoji or of outcomes
  hold for every order in which whole calls can run or complete.
\<close>

fun run_pool :: "env \<Rightarrow> nat \<Rightarrow> nat \<Rightarrow> emoji list \<Rightarrow> world \<Rightarrow> (exn + outcome) list \<times> world" where
  "run_pool env n_total i [] w = ([], w)"
| "run_pool env n_total i (e # es) w =
     (case download_one env e i n_total w of
        (r, w1) \<Rightarrow>
          (case run_pool env n_total (Suc i) es w1 of
             (rs, w2) \<Rightarrow> (r # rs, w2)))"

text \<open>Line 121: \<open>emoji.get("categories", ["Other"])\<close>; the default is for the absent key.\<close>

definition categories_of :: "emoji \<Rightarrow> string list" where
  "categories_of e = (case categories e of None \<Rightarrow> [''Other''] | Some cs \<Rightarrow> cs)"

text \<open>Lines 124-129: the dictionary literal, evaluated key by key.\<close>

definition summary_of :: "emoji \<Rightarrow> exn + summary" where
  "summary_of e =
     (case codepoint e of
        None \<Rightarrow> Inl (KeyError ''codepoint'')
      | Some cp \<Rightarrow>
          (case name e of
             None \<Rightarrow> Inl (KeyError ''name'')
           | Some nm \<Rightarrow>
               Inr \<lparr>s_codepoint = cp, s_name = nm,
                    s_tags = (case tags e of None \<Rightarrow> [] | Some ts \<Rightarrow> ts),
                    s_popularity = (case popularity e of None \<Rightarrow> 0 | Some p \<Rightarrow> p)\<rparr>))"

text \<open>
  Lines 122-124: \<open>if cat not in categories: categories[cat] = []\<close> followed by
  \<open>categories[cat].append(s)\<close>. A new key goes to the end, an old key keeps its place.
\<close>

fun append_to :: "string \<Rightarrow> summary \<Rightarrow> category_index \<Rightarrow> category_index" where
  "append_to cat s [] = [(cat, [s])]"
| "append_to cat s ((k, v) # rest) =
     (if k = cat then (k, v @ [s]) # rest else (k, v) # append_to cat s rest)"

text \<open>Line 121: the inner loop over the categories of one emoji.\<close>

fun add_item :: "emoji \<Rightarrow> string list \<Rightarrow> category_index \<Rightarrow> exn + category_index" where
  "add_item e [] idx = Inr idx"
| "add_item e (cat # cs) idx =
     (case summary_of e of
        Inl ex \<Rightarrow> Inl ex
      | Inr s \<Rightarrow> add_item e cs (append_to cat s idx))"

text \<open>Lines 119-129: the outer loop; the second argument is the dict built so far.\<close>

fun build_index :: "emoji list \<Rightarrow> category_index \<Rightarrow> exn + category_index" where
  "build_index [] idx = Inr idx"
| "build_index (e # es) idx =
     (case add_item e (categories_of e) idx of
        Inl ex \<Rightarrow> Inl ex
      | Inr idx' \<Rightarrow> build_index es idx')"

text \<open>The sequence of a category in the index; a category that is no key has none.\<close>

definition entries :: "category_index \<Rightarrow> string \<Rightarrow> summary list" where
  "entries idx c = (case map_of idx c of None \<Rightarrow> [] | Some v \<Rightarrow> v)"

text \<open>
  Lines 135-136: the lines printed for \<open>sorted(categories.items())\<close>. The keys of a dict
  are distinct, so the pairs are ordered by their key alone.
\<close>

definition category_listing :: "category_index \<Rightarrow> (string \<times> nat) list" where
  "category_listing idx = map (\<lambda>(c, items). (c, length items)) (sort_key fst idx)"

definition meta_path :: "env \<Rightarrow> string" where
  "meta_path env = path_join (output_dir env) ''_metadata.json''"

definition cat_path :: "env \<Rightarrow> string" where
  "cat_path env = path_join (output_dir env) ''_categories.json''"

text \<open>
  How \<open>download_all\<close> returns: after the early \<open>return\<close> of line 70, with the status of the
  catalog response, or at its end, with the counters it printed and the index it wrote.
\<close>

datatype run_result =
    CatalogFailed int
  | Completed counters category_index

text \<open>
  \<open>download_all()\<close>. \<open>Inl\<close> is an exception that leaves the function. Line 64,
  \<open>os.makedirs(OUTPUT_DIR, exist_ok=True)\<close>, raises when a regular file has that path.
\<close>

definition download_all :: "env \<Rightarrow> world \<Rightarrow> (exn + run_result) \<times> world" where
  "download_all env w =
     (if exists w (output_dir env) then (Inl (OSError ''File exists''), w)
      else
        (let w0 = issue DATA_URL w
         in case catalog_get env of
              CatalogRaises ex \<Rightarrow> (Inl ex, w0)
            | CatalogResponse st body \<Rightarrow>
                if st \<noteq> 200 then (Inr (CatalogFailed st), w0)
                else
                  (case body of
                     Inl ex \<Rightarrow> (Inl ex, w0)
                   | Inr emojis \<Rightarrow>
                       (case write_file env (meta_path env) (CatalogJson emojis) w0 of
                          (Some ex, w1) \<Rightarrow> (Inl ex, w1)
                        | (None, w1) \<Rightarrow>
                            (case run_pool env (length emojis) 0 emojis w1 of
                               (results, w2) \<Rightarrow>
                                 (case collect zero_counters results of
                                    Inl ex \<Rightarrow> (Inl ex, w2)
                                  | Inr c \<Rightarrow>
                                      (case build_index emojis [] of
                                         Inl ex \<Rightarrow> (Inl ex, w2)
                                       | Inr idx \<Rightarrow>
                                           (case write_file env (cat_path env) (IndexJson idx) w2 of
                                              (Some ex, w3) \<Rightarrow> (Inl ex, w3)
                                            | (None, w3) \<Rightarrow> (Inr (Completed c idx), w3)))))))))"

text \<open>
  The exit status of \<open>python download_noto_emoji.py\<close>: the module only calls
  \<open>download_all()\<close>, so the status is 1 when an exception leaves it and 0 when it returns.
\<close>

definition exit_status :: "exn + run_result \<Rightarrow> int" where
  "exit_status r = (case r of Inl ex \<Rightarrow> 1 | Inr v \<Rightarrow> 0)"

subsection \<open>Observations\<close>

text \<open>The URLs requested so far, oldest first, read off the trace.\<close>

definition requests :: "world \<Rightarrow> string list" where
  "requests w = concat (map (\<lambda>ev. case ev of Get u \<Rightarrow> [u] | Wrote p \<Rightarrow> []) (trace w))"



text \<open>
  The key in the words of the specification, for comparison with \<open>destination_key\<close>: the
  tag with the one prefix character \<open>:\<close> removed and hyphens replaced by underscores, after
  the id and an underscore.
\<close>

definition spec_normalized_tag :: "string \<Rightarrow> string" where
  "spec_normalized_tag tag =
     replace CHR ''-'' CHR ''_''
       (case tag of [] \<Rightarrow> [] | x # xs \<Rightarrow> if x = CHR '':'' then xs else tag)"

definition spec_destination_key :: "string \<Rightarrow> string \<Rightarrow> string" where
  "spec_destination_key cp tag = cp @ ''_'' @ spec_normalized_tag tag"

subsection \<open>Example catalog items, file systems and networks\<close>

definition grinning :: emoji where
  "grinning = \<lparr>codepoint = Some ''1f600'', name = Some ''grinning face'',
     tags = Some ['':smile:''], categories = None, popularity = Some 3\<rparr>"

definition artist :: emoji where
  "artist = \<lparr>codepoint = Some ''1f9d1 200d 1f3a8'', name = Some ''artist'',
     tags = Some ['':artist:''], categories = Some [''People'', ''Activities''], popularity = None\<rparr>"

definition uncategorised :: emoji where
  "uncategorised = \<lparr>codepoint = Some ''2728'', name = Some ''sparkles'',
     tags = None, categories = Some [], popularity = None\<rparr>"

definition empty_world :: world where
  "empty_world = \<lparr>files = Map.empty, trace = []\<rparr>"

definition stocked_world :: world where
  "stocked_world = \<lparr>files = [''noto/1f600_smile.json'' \<mapsto> Bytes ''{}''], trace = []\<rparr>"

definition fallback_env :: env where
  "fallback_env = \<lparr>output_dir = ''noto'',
     http_get = (\<lambda>t u. if u = fallback_url ''1f9d1 200d 1f3a8''
                         then Response 200 ''PAYLOAD'' else Response 404 []),
     catalog_get = CatalogResponse 200 (Inr [artist]),
     write_fault_at = (\<lambda>t p. None)\<rparr>"

definition timeout_env :: env where
  "timeout_env = \<lparr>output_dir = ''noto'',
     http_get = (\<lambda>t u. Raises (RequestException ''timed out'')),
     catalog_get = CatalogResponse 200 (Inr [artist, grinning]),
     write_fault_at = (\<lambda>t p. None)\<rparr>"

definition flaky_env :: env where
  "flaky_env = \<lparr>output_dir = ''noto'',
     http_get = (\<lambda>t u. if t = 0 then Response 500 [] else Raises (RequestException ''timed out'')),
     catalog_get = CatalogResponse 404 (Inr []),
     write_fault_at = (\<lambda>t p. None)\<rparr>"

definition artist_summary :: summary where
  "artist_summary = \<lparr>s_codepoint = ''1f9d1 200d 1f3a8'', s_name = ''artist'',
     s_tags = ['':artist:''], s_popularity = 0\<rparr>"

definition grinning_summary :: summary where
  "grinning_summary = \<lparr>s_codepoint = ''1f600'', s_name = ''grinning face'',
     s_tags = ['':smile:''], s_popularity = 3\<rparr>"

definition people_first :: category_index where
  "people_first = [(''People'', [artist_summary]), (''Activities'', [artist_summary]),
     (''Other'', [grinning_summary])]"

section \<open>Properties\<close>

lemma write_file_exists:
  "write_file env q c w = (r, w') \<Longrightarrow> exists w p \<Longrightarrow> exists w' p"
  by (auto simp: write_file_def exists_def split: option.splits write_fault.splits)

lemma save_exists:
  "save env q nm tag body w = (r, w') \<Longrightarrow> exists w p \<Longrightarrow> exists w' p"
  by (auto simp: save_def split: prod.splits option.splits dest: write_file_exists)

lemma issue_exists: "exists (issue u w) p = exists w p"
  by (simp add: issue_def exists_def)

lemma attempt_exists:
  "attempt env cp nm tag q w = (r, w') \<Longrightarrow> exists w p \<Longrightarrow> exists w' p"
  by (auto simp: attempt_def Let_def issue_exists
        split: http_result.splits if_splits dest: save_exists)

lemma download_one_exists:
  "download_one env e i n w = (r, w') \<Longrightarrow> exists w p \<Longrightarrow> exists w' p"
  by (auto simp: download_one_def Let_def
        split: option.splits prod.splits if_splits dest: attempt_exists)

lemma download_one_skips:
  assumes "filepath_of env e = Inr p" and "exists w p"
  shows "\<exists>nm. name e = Some nm \<and> download_one env e i n w = (Inr (Skipped nm), w)"
  using assms
  by (auto simp: filepath_of_def download_one_def Let_def split: option.splits)


lemma run_pool_skips:
  assumes "filepath_of env e = Inr p" and "exists w p" and "name e = Some nm"
    and "k < length es" and "es ! k = e"
  shows "fst (run_pool env n i es w) ! k = Inr (Skipped nm)"
  using assms
proof (induction es arbitrary: i w k)
  case Nil
  then show ?case by simp
next
  case (Cons x xs)
  obtain r w1 where r: "download_one env x i n w = (r, w1)" by force
  obtain rs w2 where rs: "run_pool env n (Suc i) xs w1 = (rs, w2)" by force
  have ex1: "exists w1 p"
    using download_one_exists [OF r Cons.prems(2)] .
  show ?case
  proof (cases k)
    case 0
    with Cons.prems have "x = e" by simp
    with download_one_skips [OF Cons.prems(1,2), of i n] Cons.prems(3) r rs 0
    show ?thesis by simp
  next
    case (Suc j)
    with Cons.prems have "j < length xs" "xs ! j = e" by simp_all
    from Cons.IH [OF Cons.prems(1) ex1 Cons.prems(3) this, of "Suc i"] r rs Suc
    show ?thesis by simp
  qed
qed

lemma run_pool_all_present:
  assumes "\<forall>x \<in> set es. \<exists>q. filepath_of env x = Inr q \<and> exists w q"
  shows "snd (run_pool env n i es w) = w"
  using assms
proof (induction es arbitrary: i)
  case Nil
  then show ?case by simp
next
  case (Cons x xs)
  then obtain q where q: "filepath_of env x = Inr q" "exists w q" by auto
  from download_one_skips [OF q, of i n] obtain nm where
    d: "download_one env x i n w = (Inr (Skipped nm), w)" by blast
  obtain rs w2 where rs: "run_pool env n (Suc i) xs w = (rs, w2)" by force
  have "snd (run_pool env n (Suc i) xs w) = w"
    using Cons by simp
  with d rs show ?case by simp
qed

text \<open>
  Claim C6. When a file already exists at the destination path of an item,
  \<open>download_one\<close> returns \<open>skipped\<close> with the item's name and leaves the world as it
  was, so that no request is issued. Hence, in a run of the pool over any catalog started
  in such a world, the result at every position holding that item is \<open>skipped\<close>, and a
  run over a catalog whose destination files all exist changes nothing and requests nothing.
\<close>

theorem present_file_is_skipped:
  assumes "filepath_of env e = Inr p" and "exists w p" and "name e = Some nm"
  shows "download_one env e i n w = (Inr (Skipped nm), w)
      \<and> (\<forall>es k j. k < length es \<and> es ! k = e \<longrightarrow>
            fst (run_pool env n j es w) ! k = Inr (Skipped nm))
      \<and> (\<forall>es j. (\<forall>x \<in> set es. \<exists>q. filepath_of env x = Inr q \<and> exists w q) \<longrightarrow>
            snd (run_pool env n j es w) = w)"
proof -
  from download_one_skips [OF assms(1,2), of i n] assms(3)
  have 1: "download_one env e i n w = (Inr (Skipped nm), w)" by force
  have 2: "\<forall>es k j. k < length es \<and> es ! k = e \<longrightarrow>
            fst (run_pool env n j es w) ! k = Inr (Skipped nm)"
    using run_pool_skips [OF assms] by blast
  have 3: "\<forall>es j. (\<forall>x \<in> set es. \<exists>q. filepath_of env x = Inr q \<and> exists w q) \<longrightarrow>
            snd (run_pool env n j es w) = w"
    using run_pool_all_present by blast
  from 1 2 3 show ?thesis by blast
qed

lemma requests_issue: "requests (issue u w) = requests w @ [u]"
  by (simp add: requests_def issue_def)

lemma requests_write_file: "write_file env q c w = (r, w') \<Longrightarrow> requests w' = requests w"
  by (auto simp: write_file_def requests_def split: option.splits write_fault.splits)

lemma requests_save: "save env q nm tag body w = (r, w') \<Longrightarrow> requests w' = requests w"
  by (auto simp: save_def split: prod.splits option.splits dest: requests_write_file)

lemma trace_issue: "length (trace (issue u w)) = Suc (length (trace w))"
  by (simp add: issue_def)

lemma requests_attempt:
  "attempt env cp nm tag q w = (r, w') \<Longrightarrow>
   requests w' = requests w @
     (case http_get env (length (trace w)) (primary_url cp) of
        Raises ex \<Rightarrow> [primary_url cp]
      | Response st body \<Rightarrow>
          if st = 200 then [primary_url cp] else [primary_url cp, fallback_url cp])"
  by (auto simp: attempt_def Let_def requests_issue
        split: http_result.splits if_splits dest!: requests_save)

text \<open>
  Claim C5. For an item whose destination file does not exist: when the primary request
  raises, \<open>download_one\<close> returns \<open>error\<close> with that exception after the one request;
  and the requests it issues are the primary URL alone, unless the primary request returned
  a response whose status is not 200, in which case they are the primary URL followed by
  the fallback URL.
\<close>

theorem fallback_only_after_status:
  assumes "codepoint e = Some cp" and "name e = Some nm"
    and "filepath_of env e = Inr p" and "\<not> exists w p"
  shows "(\<forall>ex. http_get env (length (trace w)) (primary_url cp) = Raises ex \<longrightarrow>
            download_one env e i n w = (Inr (Error nm ex), issue (primary_url cp) w))
       \<and> requests (snd (download_one env e i n w)) = requests w @
           (case http_get env (length (trace w)) (primary_url cp) of
              Raises ex \<Rightarrow> [primary_url cp]
            | Response st body \<Rightarrow>
                if st = 200 then [primary_url cp] else [primary_url cp, fallback_url cp])"
proof -
  let ?q = "path_join (output_dir env) (destination_key cp (tag_of e nm) @ ''.json'')"
  from assms have p: "p = ?q" by (simp add: filepath_of_def)
  obtain r w' where a: "attempt env cp nm (tag_of e nm) ?q w = (r, w')" by force
  from assms p a have d: "download_one env e i n w = (Inr r, w')"
    by (simp add: download_one_def Let_def)
  have "\<forall>ex. http_get env (length (trace w)) (primary_url cp) = Raises ex \<longrightarrow>
            (r, w') = (Error nm ex, issue (primary_url cp) w)"
    using a by (auto simp: attempt_def Let_def)
  with d requests_attempt [OF a] show ?thesis by simp
qed

lemma download_one_fallback_ok:
  assumes "codepoint e = Some cp" and "name e = Some nm"
    and "filepath_of env e = Inr p" and "\<not> exists w p"
    and "http_get env (length (trace w)) (primary_url cp) = Response st body"
    and "st \<noteq> 200"
    and "http_get env (Suc (length (trace w))) (fallback_url cp) = Response 200 body2"
    and "write_fault_at env (Suc (Suc (length (trace w)))) p = None"
  shows "\<exists>w'. download_one env e i n w =
            (Inr (Ok (tag_of e nm) (of_nat (length body2) / 1024)), w')
        \<and> files w' p = Some (Bytes body2)"
  using assms
  by (simp add: filepath_of_def download_one_def attempt_def save_def write_file_def
        size_kb_def issue_def exists_def Let_def)

text \<open>
  Claim C2, as amended. For an item whose destination file does not exist, when the primary
  request returns a status other than 200, the fallback request returns status 200 with a
  body of \<open>n\<close> bytes and the file can be written, \<open>download_one\<close> returns \<open>ok\<close> with
  the size \<open>n / 1024\<close> (kilobytes, not bytes), and the destination file holds exactly the
  body.
\<close>

theorem fallback_download_writes_body:
  assumes "codepoint e = Some cp" and "name e = Some nm"
    and "filepath_of env e = Inr p" and "\<not> exists w p"
    and "http_get env (length (trace w)) (primary_url cp) = Response st body"
    and "st \<noteq> 200"
    and "http_get env (Suc (length (trace w))) (fallback_url cp) = Response 200 body2"
    and "write_fault_at env (Suc (Suc (length (trace w)))) p = None"
  shows "\<exists>w'. download_one env e i n w =
            (Inr (Ok (tag_of e nm) (of_nat (length body2) / 1024)), w')
        \<and> files w' p = Some (Bytes body2)"
  using assms by (rule download_one_fallback_ok)

text \<open>
  Claim C10. For an item that has its \<open>codepoint\<close> and \<open>name\<close> keys, \<open>download_one\<close>
  raises nothing: it returns one of the four outcomes. A fault of the fallback request, and
  a fault of the file write after the primary or after the fallback response, give the
  \<open>error\<close> outcome with that exception.
\<close>

theorem download_one_returns_outcome:
  assumes "codepoint e = Some cp" and "name e = Some nm"
    and "filepath_of env e = Inr p"
  shows "(\<exists>out w'. download_one env e i n w = (Inr out, w'))
    \<and> (\<not> exists w p
        \<and> http_get env (length (trace w)) (primary_url cp) = Response st body \<and> st \<noteq> 200
        \<and> http_get env (Suc (length (trace w))) (fallback_url cp) = Raises ex
        \<longrightarrow> fst (download_one env e i n w) = Inr (Error nm ex))
    \<and> (\<not> exists w p
        \<and> http_get env (length (trace w)) (primary_url cp) = Response 200 body
        \<and> write_fault_at env (Suc (length (trace w))) p \<in> {Some (OpenRaises ex), Some (WriteRaises ex)}
        \<longrightarrow> fst (download_one env e i n w) = Inr (Error nm ex))
    \<and> (\<not> exists w p
        \<and> http_get env (length (trace w)) (primary_url cp) = Response st body \<and> st \<noteq> 200
        \<and> http_get env (Suc (length (trace w))) (fallback_url cp) = Response 200 body2
        \<and> write_fault_at env (Suc (Suc (length (trace w)))) p \<in> {Some (OpenRaises ex), Some (WriteRaises ex)}
        \<longrightarrow> fst (download_one env e i n w) = Inr (Error nm ex))"
proof -
  let ?q = "path_join (output_dir env) (destination_key cp (tag_of e nm) @ ''.json'')"
  from assms have p: "p = ?q" by (simp add: filepath_of_def)
  have total: "\<exists>out w'. download_one env e i n w = (Inr out, w')"
    using assms by (simp add: download_one_def Let_def split: prod.splits)
  have red: "\<not> exists w p \<Longrightarrow>
      fst (download_one env e i n w) = Inr (fst (attempt env cp nm (tag_of e nm) p w))"
    using assms p by (simp add: download_one_def Let_def split: prod.splits)
  have b: "\<not> exists w p
        \<and> http_get env (length (trace w)) (primary_url cp) = Response st body \<and> st \<noteq> 200
        \<and> http_get env (Suc (length (trace w))) (fallback_url cp) = Raises ex
        \<longrightarrow> fst (download_one env e i n w) = Inr (Error nm ex)"
    using red by (auto simp: attempt_def Let_def issue_def)
  have c: "\<not> exists w p
        \<and> http_get env (length (trace w)) (primary_url cp) = Response 200 body
        \<and> write_fault_at env (Suc (length (trace w))) p \<in> {Some (OpenRaises ex), Some (WriteRaises ex)}
        \<longrightarrow> fst (download_one env e i n w) = Inr (Error nm ex)"
    using red by (auto simp: attempt_def Let_def issue_def save_def write_file_def)
  have d: "\<not> exists w p
        \<and> http_get env (length (trace w)) (primary_url cp) = Response st body \<and> st \<noteq> 200
        \<and> http_get env (Suc (length (trace w))) (fallback_url cp) = Response 200 body2
        \<and> write_fault_at env (Suc (Suc (length (trace w)))) p \<in> {Some (OpenRaises ex), Some (WriteRaises ex)}
        \<longrightarrow> fst (download_one env e i n w) = Inr (Error nm ex)"
    using red by (auto simp: attempt_def Let_def issue_def save_def write_file_def)
  from total b c d show ?thesis by blast
qed

lemma collect_outcomes: "collect c (map Inr outs) = Inr (foldl tally c outs)"
  by (induction outs arbitrary: c) simp_all







text \<open>What a completed run went through.\<close>

lemma download_all_completed:
  assumes "catalog_get env = CatalogResponse 200 (Inr emojis)"
    and "download_all env w = (Inr (Completed c idx), w')"
  shows "\<exists>w1 rs w2.
      write_file env (meta_path env) (CatalogJson emojis) (issue DATA_URL w) = (None, w1)
    \<and> run_pool env (length emojis) 0 emojis w1 = (rs, w2)
    \<and> collect zero_counters rs = Inr c
    \<and> build_index emojis [] = Inr idx
    \<and> write_file env (cat_path env) (IndexJson idx) w2 = (None, w')"
  using assms
  by (auto simp: download_all_def Let_def
        split: if_splits prod.splits option.splits sum.splits)


lemma download_one_Inr:
  "codepoint e \<noteq> None \<Longrightarrow> name e \<noteq> None \<Longrightarrow> download_one env e i n w = (r, w')
   \<Longrightarrow> \<exists>out. r = Inr out"
  by (auto simp: download_one_def Let_def split: prod.splits if_splits)

lemma run_pool_Inr:
  "\<forall>e \<in> set es. codepoint e \<noteq> None \<and> name e \<noteq> None \<Longrightarrow>
   run_pool env n i es w = (rs, w') \<Longrightarrow> \<exists>outs. rs = map Inr outs"
proof (induction es arbitrary: i w rs w')
  case Nil
  then show ?case by simp
next
  case (Cons x xs)
  obtain r w1 where r: "download_one env x i n w = (r, w1)" by force
  obtain rs' w2 where rs': "run_pool env n (Suc i) xs w1 = (rs', w2)" by force
  from Cons.prems(1) r obtain out where out: "r = Inr out"
    using download_one_Inr [of x env i n w r w1] by auto
  from Cons.IH [OF _ rs'] Cons.prems(1) obtain outs where outs: "rs' = map Inr outs" by auto
  from Cons.prems(2) r rs' have "rs = r # rs'" by simp
  with out outs have "rs = map Inr (out # outs)" by simp
  then show ?case by (rule exI)
qed

lemma summary_of_Inr:
  "codepoint e \<noteq> None \<Longrightarrow> name e \<noteq> None \<Longrightarrow> \<exists>s. summary_of e = Inr s"
  by (auto simp: summary_of_def)

lemma add_item_Inr: "summary_of e = Inr s \<Longrightarrow> \<exists>idx'. add_item e cs idx = Inr idx'"
  by (induction cs arbitrary: idx) simp_all

lemma build_index_Inr:
  "\<forall>e \<in> set es. codepoint e \<noteq> None \<and> name e \<noteq> None \<Longrightarrow> \<exists>idx'. build_index es idx = Inr idx'"
proof (induction es arbitrary: idx)
  case Nil
  then show ?case by simp
next
  case (Cons x xs)
  then obtain s where "summary_of x = Inr s" using summary_of_Inr [of x] by auto
  from add_item_Inr [OF this] obtain idx1 where "add_item x (categories_of x) idx = Inr idx1"
    by blast
  moreover from Cons obtain idx2 where "build_index xs idx1 = Inr idx2" by auto
  ultimately show ?case by simp
qed

lemma write_file_no_fault:
  "write_fault_at env (length (trace w)) p = None \<Longrightarrow> \<exists>w'. write_file env p c w = (None, w')"
  by (simp add: write_file_def)

lemma download_all_catalog_failed:
  "\<not> exists w (output_dir env) \<Longrightarrow> catalog_get env = CatalogResponse st body \<Longrightarrow> st \<noteq> 200
   \<Longrightarrow> download_all env w = (Inr (CatalogFailed st), issue DATA_URL w)"
  by (simp add: download_all_def Let_def)

lemma download_all_completes:
  assumes "\<not> exists w (output_dir env)"
    and cat: "catalog_get env = CatalogResponse 200 (Inr emojis)"
    and wf: "\<forall>e \<in> set emojis. codepoint e \<noteq> None \<and> name e \<noteq> None"
    and nf: "\<forall>t. write_fault_at env t (meta_path env) = None
                   \<and> write_fault_at env t (cat_path env) = None"
  shows "\<exists>c idx w'. download_all env w = (Inr (Completed c idx), w')"
proof -
  from nf write_file_no_fault obtain w1 where
    w1: "write_file env (meta_path env) (CatalogJson emojis) (issue DATA_URL w) = (None, w1)"
    by blast
  obtain rs w2 where rs: "run_pool env (length emojis) 0 emojis w1 = (rs, w2)" by force
  from run_pool_Inr [OF wf rs] obtain outs where "rs = map Inr outs" by blast
  then have col: "collect zero_counters rs = Inr (foldl tally zero_counters outs)"
    by (simp add: collect_outcomes)
  from build_index_Inr [OF wf] obtain idx where idx: "build_index emojis [] = Inr idx"
    by blast
  from nf write_file_no_fault obtain w3 where
    w3: "write_file env (cat_path env) (IndexJson idx) w2 = (None, w3)" by blast
  from assms(1) cat w1 rs col idx w3
  have "download_all env w = (Inr (Completed (foldl tally zero_counters outs) idx), w3)"
    by (simp add: download_all_def Let_def)
  then show ?thesis by blast
qed

text \<open>
  Claim C3, as amended. A catalog response with a status other than 200 ends the run at
  once: \<open>download_all\<close> returns normally after the one request, so the exit status is 0,
  and no file is written. The exit status is 1 when an exception leaves the function, as
  when the catalog request itself raises. When the catalog response has status 200 and a
  readable list, every item has its \<open>codepoint\<close> and \<open>name\<close> keys and the two index
  files can be written, the run completes with its counters and its index whatever the
  outcome of each item.
\<close>

theorem catalog_status_decides_early_return:
  assumes "\<not> exists w (output_dir env)"
  shows "(\<forall>st body. catalog_get env = CatalogResponse st body \<and> st \<noteq> 200 \<longrightarrow>
            download_all env w = (Inr (CatalogFailed st), issue DATA_URL w)
            \<and> exit_status (fst (download_all env w)) = 0
            \<and> files (snd (download_all env w)) = files w)
    \<and> (\<forall>ex. catalog_get env = CatalogRaises ex \<longrightarrow>
            exit_status (fst (download_all env w)) = 1)
    \<and> (\<forall>emojis. catalog_get env = CatalogResponse 200 (Inr emojis)
            \<and> (\<forall>e \<in> set emojis. codepoint e \<noteq> None \<and> name e \<noteq> None)
            \<and> (\<forall>t. write_fault_at env t (meta_path env) = None
                   \<and> write_fault_at env t (cat_path env) = None) \<longrightarrow>
            (\<exists>c idx w'. download_all env w = (Inr (Completed c idx), w')
                \<and> exit_status (fst (download_all env w)) = 0))"
proof -
  have a: "\<forall>st body. catalog_get env = CatalogResponse st body \<and> st \<noteq> 200 \<longrightarrow>
            download_all env w = (Inr (CatalogFailed st), issue DATA_URL w)
            \<and> exit_status (fst (download_all env w)) = 0
            \<and> files (snd (download_all env w)) = files w"
    using assms by (simp add: download_all_def Let_def exit_status_def issue_def)
  have b: "\<forall>ex. catalog_get env = CatalogRaises ex \<longrightarrow>
            exit_status (fst (download_all env w)) = 1"
    using assms by (simp add: download_all_def Let_def exit_status_def)
  have c: "\<exists>c idx w'. download_all env w = (Inr (Completed c idx), w')
                \<and> exit_status (fst (download_all env w)) = 0"
    if cat: "catalog_get env = CatalogResponse 200 (Inr emojis)"
      and wf: "\<forall>e \<in> set emojis. codepoint e \<noteq> None \<and> name e \<noteq> None"
      and nf: "\<forall>t. write_fault_at env t (meta_path env) = None
                   \<and> write_fault_at env t (cat_path env) = None"
    for emojis
  proof -
    from download_all_completes [OF assms cat wf nf] obtain c idx w' where
      "download_all env w = (Inr (Completed c idx), w')" by blast
    then show ?thesis by (simp add: exit_status_def)
  qed
  from a b c show ?thesis by blast
qed







lemma keys_append_to:
  "map fst (append_to cat s idx) =
     (if cat \<in> set (map fst idx) then map fst idx else map fst idx @ [cat])"
proof (induction idx)
  case Nil
  then show ?case by simp
next
  case (Cons p idx)
  obtain k v where p: "p = (k, v)" by (cases p)
  show ?case
  proof (cases "k = cat")
    case True
    with p show ?thesis by simp
  next
    case False
    with p Cons show ?thesis by auto
  qed
qed

lemma first_seen_snoc:
  "rev (remdups (rev (ks @ [k]))) =
     (if k \<in> set ks then rev (remdups (rev ks)) else rev (remdups (rev ks)) @ [k])"
  by simp

lemma keys_add_item:
  "add_item e cs idx = Inr idx' \<Longrightarrow> map fst idx = rev (remdups (rev ks)) \<Longrightarrow>
   map fst idx' = rev (remdups (rev (ks @ cs)))"
proof (induction cs arbitrary: idx ks)
  case Nil
  then show ?case by simp
next
  case (Cons cat cs)
  from Cons.prems(1) obtain s where s: "summary_of e = Inr s"
    and rest: "add_item e cs (append_to cat s idx) = Inr idx'"
    by (auto split: sum.splits)
  have "map fst (append_to cat s idx) = rev (remdups (rev (ks @ [cat])))"
    unfolding keys_append_to first_seen_snoc using Cons.prems(2) by simp
  from Cons.IH [OF rest this] show ?case by simp
qed

lemma keys_build_index:
  "build_index es idx = Inr idx' \<Longrightarrow> map fst idx = rev (remdups (rev ks)) \<Longrightarrow>
   map fst idx' = rev (remdups (rev (ks @ concat (map categories_of es))))"
proof (induction es arbitrary: idx ks)
  case Nil
  then show ?case by simp
next
  case (Cons x xs)
  from Cons.prems(1) obtain idx1 where a: "add_item x (categories_of x) idx = Inr idx1"
    and b: "build_index xs idx1 = Inr idx'"
    by (auto split: sum.splits)
  from Cons.IH [OF b keys_add_item [OF a Cons.prems(2)]] show ?case by simp
qed

lemma listing_sorted: "sorted (map fst (category_listing idx))"
proof -
  have "map fst (category_listing idx) = map fst (sort_key fst idx)"
    by (simp add: category_listing_def case_prod_beta comp_def)
  then show ?thesis by simp
qed

text \<open>
  Claim C4, as amended. The file \<open>_categories.json\<close> of a completed run holds the category
  index with its categories in the order in which they first occur in the catalog (the
  insertion order of the dict; \<open>json.dump\<close> is called without \<open>sort_keys\<close>). Only the
  listing printed at the end of the run is sorted by category name; it has the same
  categories.
\<close>

theorem categories_file_keeps_insertion_order:
  assumes "catalog_get env = CatalogResponse 200 (Inr emojis)"
    and "download_all env w = (Inr (Completed c idx), w')"
  shows "files w' (cat_path env) = Some (IndexJson idx)
    \<and> map fst idx = rev (remdups (rev (concat (map categories_of emojis))))
    \<and> sorted (map fst (category_listing idx))
    \<and> set (map fst (category_listing idx)) = set (map fst idx)"
proof -
  from download_all_completed [OF assms] obtain w2 where
    idx: "build_index emojis [] = Inr idx"
    and w': "write_file env (cat_path env) (IndexJson idx) w2 = (None, w')" by blast
  from w' have 1: "files w' (cat_path env) = Some (IndexJson idx)"
    by (auto simp: write_file_def split: option.splits write_fault.splits)
  from keys_build_index [OF idx, of "[]"]
  have 2: "map fst idx = rev (remdups (rev (concat (map categories_of emojis))))" by simp
  have "map fst (category_listing idx) = map fst (sort_key fst idx)"
    by (simp add: category_listing_def case_prod_beta comp_def)
  then have 3: "set (map fst (category_listing idx)) = set (map fst idx)" by simp
  from 1 2 3 listing_sorted show ?thesis by blast
qed

lemma entries_append_to:
  "entries (append_to cat s idx) c = (if c = cat then entries idx c @ [s] else entries idx c)"
proof (induction idx)
  case Nil
  then show ?case by (simp add: entries_def)
next
  case (Cons p idx)
  obtain k v where p: "p = (k, v)" by (cases p)
  show ?case
  proof (cases "k = cat")
    case True
    with p show ?thesis by (simp add: entries_def)
  next
    case False
    have "entries (append_to cat s (p # idx)) c =
            (if c = k then v else entries (append_to cat s idx) c)"
      using p False by (simp add: entries_def)
    also have "\<dots> = (if c = k then v else
            (if c = cat then entries idx c @ [s] else entries idx c))"
      by (simp only: Cons.IH)
    also have "\<dots> = (if c = cat then entries (p # idx) c @ [s] else entries (p # idx) c)"
      using p False by (simp add: entries_def)
    finally show ?thesis .
  qed
qed

lemma build_index_append:
  "build_index (xs @ ys) idx =
     (case build_index xs idx of Inl ex \<Rightarrow> Inl ex | Inr idx1 \<Rightarrow> build_index ys idx1)"
proof (induction xs arbitrary: idx)
  case Nil
  then show ?case by simp
next
  case (Cons x xs)
  show ?case
    by (cases "add_item x (categories_of x) idx") (simp_all add: Cons.IH)
qed

lemma single_category_step:
  assumes "add_item e [d] idx1 = Inr idx2"
  shows "(\<exists>s. summary_of e = Inr s \<and> entries idx2 d = entries idx1 d @ [s])
       \<and> (\<forall>c. c \<noteq> d \<longrightarrow> entries idx2 c = entries idx1 c)
       \<and> set (map fst idx2) = insert d (set (map fst idx1))"
proof (cases "summary_of e")
  case (Inl ex)
  with assms show ?thesis by simp
next
  case (Inr s)
  with assms have i2: "idx2 = append_to d s idx1" by simp
  have e1: "entries idx2 d = entries idx1 d @ [s]"
    unfolding i2 by (simp add: entries_append_to)
  have e2: "\<forall>c. c \<noteq> d \<longrightarrow> entries idx2 c = entries idx1 c"
    unfolding i2 by (simp add: entries_append_to)
  have e3: "set (map fst idx2) = insert d (set (map fst idx1))"
    unfolding i2 keys_append_to by auto
  from Inr e1 have "\<exists>s. summary_of e = Inr s \<and> entries idx2 d = entries idx1 d @ [s]"
    by blast
  with e2 e3 show ?thesis by (intro conjI)
qed

lemma keyset_append_to:
  "set (map fst (append_to cat s idx)) = insert cat (set (map fst idx))"
  unfolding keys_append_to by auto

lemma entries_Nil: "entries [] c = []"
  by (simp add: entries_def)

lemma add_item_entries:
  "add_item e cs a = Inr a' \<Longrightarrow> add_item e cs b = Inr b' \<Longrightarrow>
   entries a c = pre @ entries b c \<Longrightarrow> entries a' c = pre @ entries b' c"
proof (induction cs arbitrary: a b)
  case Nil
  then show ?case by simp
next
  case (Cons cat cs)
  from Cons.prems(1) obtain s where s: "summary_of e = Inr s"
    and ra: "add_item e cs (append_to cat s a) = Inr a'"
    by (cases "summary_of e") simp_all
  from Cons.prems(2) s have rb: "add_item e cs (append_to cat s b) = Inr b'" by simp
  have "entries (append_to cat s a) c = pre @ entries (append_to cat s b) c"
  proof (cases "c = cat")
    case True
    with Cons.prems(3) show ?thesis by (simp add: entries_append_to)
  next
    case False
    with Cons.prems(3) show ?thesis by (simp add: entries_append_to)
  qed
  with ra rb show ?case by (rule Cons.IH)
qed

lemma add_item_keys:
  "add_item e cs a = Inr a' \<Longrightarrow> add_item e cs b = Inr b' \<Longrightarrow>
   set (map fst a) = K \<union> set (map fst b) \<Longrightarrow> set (map fst a') = K \<union> set (map fst b')"
proof (induction cs arbitrary: a b)
  case Nil
  then show ?case by simp
next
  case (Cons cat cs)
  from Cons.prems(1) obtain s where s: "summary_of e = Inr s"
    and ra: "add_item e cs (append_to cat s a) = Inr a'"
    by (cases "summary_of e") simp_all
  from Cons.prems(2) s have rb: "add_item e cs (append_to cat s b) = Inr b'" by simp
  have "set (map fst (append_to cat s a)) = K \<union> set (map fst (append_to cat s b))"
    using Cons.prems(3) by (simp only: keyset_append_to Un_insert_right)
  with ra rb show ?case by (rule Cons.IH)
qed

lemma add_item_succeeds:
  "add_item e cs a = Inr a' \<Longrightarrow> \<exists>b'. add_item e cs b = Inr b'"
proof (induction cs arbitrary: a b)
  case Nil
  show ?case by simp
next
  case (Cons cat cs)
  from Cons.prems obtain s where s: "summary_of e = Inr s"
    and ra: "add_item e cs (append_to cat s a) = Inr a'"
    by (cases "summary_of e") simp_all
  from ra have "\<exists>b'. add_item e cs (append_to cat s b) = Inr b'" by (rule Cons.IH)
  with s show ?case by simp
qed

lemma build_index_succeeds:
  "build_index es a = Inr a' \<Longrightarrow> \<exists>b'. build_index es b = Inr b'"
proof (induction es arbitrary: a b)
  case Nil
  show ?case by simp
next
  case (Cons x xs)
  from Cons.prems obtain a1 where 1: "add_item x (categories_of x) a = Inr a1"
    and 2: "build_index xs a1 = Inr a'"
    by (cases "add_item x (categories_of x) a") simp_all
  from 1 have "\<exists>b1. add_item x (categories_of x) b = Inr b1" by (rule add_item_succeeds)
  then obtain b1 where b1: "add_item x (categories_of x) b = Inr b1" by (rule exE)
  from 2 have "\<exists>b'. build_index xs b1 = Inr b'" by (rule Cons.IH)
  with b1 show ?case by simp
qed

lemma build_index_entries:
  "build_index es a = Inr a' \<Longrightarrow> build_index es b = Inr b' \<Longrightarrow>
   entries a c = pre @ entries b c \<Longrightarrow> entries a' c = pre @ entries b' c"
proof (induction es arbitrary: a b)
  case Nil
  then show ?case by simp
next
  case (Cons x xs)
  from Cons.prems(1) obtain a1 where a1: "add_item x (categories_of x) a = Inr a1"
    and a2: "build_index xs a1 = Inr a'"
    by (cases "add_item x (categories_of x) a") simp_all
  from Cons.prems(2) obtain b1 where b1: "add_item x (categories_of x) b = Inr b1"
    and b2: "build_index xs b1 = Inr b'"
    by (cases "add_item x (categories_of x) b") simp_all
  from a1 b1 Cons.prems(3) have "entries a1 c = pre @ entries b1 c" by (rule add_item_entries)
  with a2 b2 show ?case by (rule Cons.IH)
qed

lemma build_index_keys:
  "build_index es a = Inr a' \<Longrightarrow> build_index es b = Inr b' \<Longrightarrow>
   set (map fst a) = K \<union> set (map fst b) \<Longrightarrow> set (map fst a') = K \<union> set (map fst b')"
proof (induction es arbitrary: a b)
  case Nil
  then show ?case by simp
next
  case (Cons x xs)
  from Cons.prems(1) obtain a1 where a1: "add_item x (categories_of x) a = Inr a1"
    and a2: "build_index xs a1 = Inr a'"
    by (cases "add_item x (categories_of x) a") simp_all
  from Cons.prems(2) obtain b1 where b1: "add_item x (categories_of x) b = Inr b1"
    and b2: "build_index xs b1 = Inr b'"
    by (cases "add_item x (categories_of x) b") simp_all
  from a1 b1 Cons.prems(3) have "set (map fst a1) = K \<union> set (map fst b1)"
    by (rule add_item_keys)
  with a2 b2 show ?case by (rule Cons.IH)
qed

text \<open>
  What the rest of the catalog adds to an index: the index built from the rest alone,
  appended category by category.
\<close>

lemma build_index_continues:
  assumes "build_index es a = Inr a'" and "build_index es [] = Inr d"
  shows "entries a' c = entries a c @ entries d c"
    and "set (map fst a') = set (map fst a) \<union> set (map fst d)"
proof -
  have "entries a c = entries a c @ entries [] c" by (simp add: entries_Nil)
  with assms show "entries a' c = entries a c @ entries d c" by (rule build_index_entries)
  have "set (map fst a) = set (map fst a) \<union> set (map fst ([] :: category_index))" by simp
  with assms show "set (map fst a') = set (map fst a) \<union> set (map fst d)"
    by (rule build_index_keys)
qed

text \<open>
  Claim C1, as amended. In the index built from a catalog, an item without a \<open>categories\<close>
  key is placed under \<open>Other\<close> and under no other category: the sequence of \<open>Other\<close>
  is what the items before it give, then its summary, then what the items after it give;
  the sequence of every other category is what the items before and after it give, and the
  categories of the index are \<open>Other\<close> and theirs. An item whose \<open>categories\<close> list is
  present and empty is placed under no category: the built index is the one of the catalog
  without that item.
\<close>

theorem absent_categories_only_under_other:
  assumes "build_index (xs @ e # ys) [] = Inr idx"
  shows "\<exists>before after.
      build_index xs [] = Inr before
    \<and> build_index ys [] = Inr after
    \<and> (categories e = None \<longrightarrow>
         (\<exists>s. summary_of e = Inr s
            \<and> entries idx ''Other'' = entries before ''Other'' @ [s] @ entries after ''Other'')
       \<and> (\<forall>c. c \<noteq> ''Other'' \<longrightarrow> entries idx c = entries before c @ entries after c)
       \<and> set (map fst idx) = insert ''Other'' (set (map fst before) \<union> set (map fst after)))
    \<and> (categories e = Some [] \<longrightarrow>
         build_index (xs @ ys) [] = Inr idx
       \<and> (\<forall>c. entries idx c = entries before c @ entries after c)
       \<and> set (map fst idx) = set (map fst before) \<union> set (map fst after))"
proof -
  from assms have "(case build_index xs [] of Inl ex \<Rightarrow> Inl ex
      | Inr idx1 \<Rightarrow> build_index (e # ys) idx1) = Inr idx"
    by (simp only: build_index_append)
  then obtain idx1 where 1: "build_index xs [] = Inr idx1"
    and r: "build_index (e # ys) idx1 = Inr idx"
    by (cases "build_index xs []") simp_all
  from r obtain idx2 where 2: "add_item e (categories_of e) idx1 = Inr idx2"
    and 3: "build_index ys idx2 = Inr idx"
    by (cases "add_item e (categories_of e) idx1") simp_all
  from 3 have "\<exists>d. build_index ys [] = Inr d" by (rule build_index_succeeds)
  then obtain d where d: "build_index ys [] = Inr d" by (rule exE)
  have ent: "entries idx c = entries idx2 c @ entries d c" for c
    using 3 d by (rule build_index_continues(1))
  have keys: "set (map fst idx) = set (map fst idx2) \<union> set (map fst d)"
    using 3 d by (rule build_index_continues(2))
  have a: "categories e = None \<longrightarrow>
         (\<exists>s. summary_of e = Inr s
            \<and> entries idx ''Other'' = entries idx1 ''Other'' @ [s] @ entries d ''Other'')
       \<and> (\<forall>c. c \<noteq> ''Other'' \<longrightarrow> entries idx c = entries idx1 c @ entries d c)
       \<and> set (map fst idx) = insert ''Other'' (set (map fst idx1) \<union> set (map fst d))"
  proof (rule impI)
    assume "categories e = None"
    then have "categories_of e = [''Other'']" by (simp add: categories_of_def)
    with 2 have "add_item e [''Other''] idx1 = Inr idx2" by (simp only:)
    then have step: "(\<exists>s. summary_of e = Inr s
            \<and> entries idx2 ''Other'' = entries idx1 ''Other'' @ [s])
       \<and> (\<forall>c. c \<noteq> ''Other'' \<longrightarrow> entries idx2 c = entries idx1 c)
       \<and> set (map fst idx2) = insert ''Other'' (set (map fst idx1))"
      by (rule single_category_step)
    from step obtain s where s: "summary_of e = Inr s"
      and o: "entries idx2 ''Other'' = entries idx1 ''Other'' @ [s]"
      by (elim conjE exE)
    from step have rest: "\<forall>c. c \<noteq> ''Other'' \<longrightarrow> entries idx2 c = entries idx1 c"
      by (rule conjunct2 [THEN conjunct1])
    from step have k2: "set (map fst idx2) = insert ''Other'' (set (map fst idx1))"
      by (rule conjunct2 [THEN conjunct2])
    have "entries idx ''Other'' = entries idx1 ''Other'' @ [s] @ entries d ''Other''"
      by (simp only: ent o append_assoc)
    with s have p1: "\<exists>s. summary_of e = Inr s
            \<and> entries idx ''Other'' = entries idx1 ''Other'' @ [s] @ entries d ''Other''"
      by (intro exI [where x = s] conjI)
    have p2: "\<forall>c. c \<noteq> ''Other'' \<longrightarrow> entries idx c = entries idx1 c @ entries d c"
    proof (intro allI impI)
      fix c :: string
      assume "c \<noteq> ''Other''"
      with rest have "entries idx2 c = entries idx1 c" by simp
      then show "entries idx c = entries idx1 c @ entries d c" by (simp only: ent)
    qed
    have p3: "set (map fst idx) = insert ''Other'' (set (map fst idx1) \<union> set (map fst d))"
      by (simp only: keys k2 Un_insert_left)
    from p1 p2 p3 show "(\<exists>s. summary_of e = Inr s
            \<and> entries idx ''Other'' = entries idx1 ''Other'' @ [s] @ entries d ''Other'')
       \<and> (\<forall>c. c \<noteq> ''Other'' \<longrightarrow> entries idx c = entries idx1 c @ entries d c)
       \<and> set (map fst idx) = insert ''Other'' (set (map fst idx1) \<union> set (map fst d))"
      by (intro conjI)
  qed
  have b: "categories e = Some [] \<longrightarrow>
         build_index (xs @ ys) [] = Inr idx
       \<and> (\<forall>c. entries idx c = entries idx1 c @ entries d c)
       \<and> set (map fst idx) = set (map fst idx1) \<union> set (map fst d)"
  proof (rule impI)
    assume "categories e = Some []"
    then have "categories_of e = []" by (simp add: categories_of_def)
    with 2 have "add_item e [] idx1 = Inr idx2" by (simp only:)
    then have same: "idx2 = idx1" by simp
    have q1: "build_index (xs @ ys) [] = Inr idx"
      using 1 3 by (simp add: build_index_append same)
    have q2: "\<forall>c. entries idx c = entries idx1 c @ entries d c"
      using ent by (simp only: same) simp
    have q3: "set (map fst idx) = set (map fst idx1) \<union> set (map fst d)"
      using keys by (simp only: same)
    from q1 q2 q3 show "build_index (xs @ ys) [] = Inr idx
       \<and> (\<forall>c. entries idx c = entries idx1 c @ entries d c)
       \<and> set (map fst idx) = set (map fst idx1) \<union> set (map fst d)"
      by (intro conjI)
  qed
  show ?thesis
    by (rule exI [where x = idx1], rule exI [where x = d]) (intro conjI 1 d a b)
qed

lemma dropWhile_replicate_append:
  "dropWhile (\<lambda>x. x = c) (replicate i c @ ys) = dropWhile (\<lambda>x. x = c) ys"
  by (induction i) simp_all

lemma dropWhile_keep: "xs \<noteq> [] \<Longrightarrow> \<not> P (hd xs) \<Longrightarrow> dropWhile P xs = xs"
  by (cases xs) simp_all

lemma takeWhile_same:
  "replicate (length (takeWhile (\<lambda>x. x = c) s)) c = takeWhile (\<lambda>x. x = c) s"
  by (rule replicate_length_same) (auto dest: set_takeWhileD)

lemma strip_core:
  assumes "core = [] \<or> hd core \<noteq> c \<and> last core \<noteq> c"
  shows "strip c (replicate i c @ core @ replicate j c) = core"
proof (cases "core = []")
  case True
  have "dropWhile (\<lambda>x. x = c) (replicate i c @ replicate j c @ []) = []"
    by (simp only: dropWhile_replicate_append dropWhile.simps)
  then have 1: "dropWhile (\<lambda>x. x = c) (replicate i c @ [] @ replicate j c) = []"
    by (simp only: append_Nil append_Nil2)
  have "strip c (replicate i c @ [] @ replicate j c) = []"
    by (simp only: strip_def 1 rev.simps dropWhile.simps)
  then show ?thesis by (simp only: True)
next
  case False
  with assms have h: "hd core \<noteq> c" and l: "last core \<noteq> c" by simp_all
  from False have "hd (core @ replicate j c) = hd core" by (rule hd_append2)
  with h have h2: "\<not> (\<lambda>x. x = c) (hd (core @ replicate j c))" by simp
  from False have ne2: "core @ replicate j c \<noteq> []" by simp
  have "dropWhile (\<lambda>x. x = c) (replicate i c @ core @ replicate j c)
          = dropWhile (\<lambda>x. x = c) (core @ replicate j c)"
    by (rule dropWhile_replicate_append)
  also from ne2 h2 have "\<dots> = core @ replicate j c" by (rule dropWhile_keep)
  finally have 1: "dropWhile (\<lambda>x. x = c) (replicate i c @ core @ replicate j c)
          = core @ replicate j c" .
  from False have ne3: "rev core \<noteq> []" by simp
  have "hd (rev core) = last core" by (rule hd_rev)
  with l have h3: "\<not> (\<lambda>x. x = c) (hd (rev core))" by simp
  have "dropWhile (\<lambda>x. x = c) (replicate j c @ rev core) = dropWhile (\<lambda>x. x = c) (rev core)"
    by (rule dropWhile_replicate_append)
  also from ne3 h3 have "\<dots> = rev core" by (rule dropWhile_keep)
  finally have 2: "dropWhile (\<lambda>x. x = c) (replicate j c @ rev core) = rev core" .
  have "strip c (replicate i c @ core @ replicate j c) =
          rev (dropWhile (\<lambda>x. x = c) (rev (core @ replicate j c)))"
    by (simp only: strip_def 1)
  also have "\<dots> = rev (dropWhile (\<lambda>x. x = c) (replicate j c @ rev core))"
    by (simp only: rev_append rev_replicate)
  also have "\<dots> = core" by (simp only: 2 rev_rev_ident)
  finally show ?thesis .
qed

lemma strip_decomposition:
  "\<exists>i j core. s = replicate i c @ core @ replicate j c
      \<and> (core = [] \<or> hd core \<noteq> c \<and> last core \<noteq> c)"
proof -
  define t where "t = dropWhile (\<lambda>x. x = c) s"
  define u where "u = dropWhile (\<lambda>x. x = c) (rev t)"
  define a where "a = takeWhile (\<lambda>x. x = c) s"
  define b where "b = takeWhile (\<lambda>x. x = c) (rev t)"
  define i where "i = length a"
  define j where "j = length b"
  have s: "s = a @ t" by (simp add: a_def t_def)
  have rt: "rev t = b @ u" by (simp add: b_def u_def)
  have "t = rev (rev t)" by (simp only: rev_rev_ident)
  also have "\<dots> = rev (b @ u)" by (simp only: rt)
  also have "\<dots> = rev u @ rev b" by (simp only: rev_append)
  finally have t: "t = rev u @ rev b" .
  have a: "a = replicate i c" unfolding a_def i_def by (rule takeWhile_same [symmetric])
  have b: "b = replicate j c" unfolding b_def j_def by (rule takeWhile_same [symmetric])
  have rb: "rev b = replicate j c" by (subst b) (simp only: rev_replicate)
  have ends: "rev u = [] \<or> hd (rev u) \<noteq> c \<and> last (rev u) \<noteq> c"
  proof (cases "u = []")
    case True
    then show ?thesis by simp
  next
    case False
    have "u \<noteq> [] \<Longrightarrow> hd u \<noteq> c"
      unfolding u_def by (rule hd_dropWhile)
    with False have hu: "hd u \<noteq> c" by simp
    from False have l: "last (rev u) = hd u" by (simp add: last_rev)
    from False have run: "rev u \<noteq> []" by simp
    then have "hd (rev u @ rev b) = hd (rev u)" by (rule hd_append2)
    then have ht: "hd t = hd (rev u)" by (simp only: t [symmetric])
    have "t \<noteq> [] \<Longrightarrow> hd t \<noteq> c"
      unfolding t_def by (rule hd_dropWhile)
    moreover from False have "t \<noteq> []" by (subst t) simp
    ultimately have "hd t \<noteq> c" by simp
    with ht hu l show ?thesis by simp
  qed
  have "s = a @ rev u @ rev b" by (subst s, subst t) (rule refl)
  then have "s = replicate i c @ rev u @ replicate j c" by (simp only: rb a [symmetric])
  with ends have fin: "s = replicate i c @ rev u @ replicate j c
      \<and> (rev u = [] \<or> hd (rev u) \<noteq> c \<and> last (rev u) \<noteq> c)"
    by (intro conjI)
  show ?thesis
    by (rule exI [where x = i], rule exI [where x = j], rule exI [where x = "rev u"])
      (rule fin)
qed

text \<open>
  Claim C8, as amended. The destination path of an item that has its \<open>codepoint\<close> and
  \<open>name\<close> keys is a function of the item and of the output directory alone: the directory
  joined with the key and \<open>.json\<close>. The tag of the key is the first tag, or the name when
  the list of tags is empty or absent. The key is the codepoint, an underscore, and the tag
  with every \<open>:\<close> at its beginning and at its end removed (not only a prefix character)
  and each hyphen of what remains replaced by an underscore.
\<close>

theorem destination_key_strips_both_ends:
  assumes "codepoint e = Some cp" and "name e = Some nm"
  shows "filepath_of env e =
           Inr (path_join (output_dir env) (destination_key cp (tag_of e nm) @ ''.json''))
    \<and> tag_of e nm = (case tags e of Some (t # ts) \<Rightarrow> t | _ \<Rightarrow> nm)
    \<and> (\<exists>i j core. tag_of e nm = replicate i CHR '':'' @ core @ replicate j CHR '':''
          \<and> (core = [] \<or> hd core \<noteq> CHR '':'' \<and> last core \<noteq> CHR '':'')
          \<and> destination_key cp (tag_of e nm) =
              cp @ ''_'' @ map (\<lambda>x. if x = CHR ''-'' then CHR ''_'' else x) core)"
proof -
  have 1: "filepath_of env e =
           Inr (path_join (output_dir env) (destination_key cp (tag_of e nm) @ ''.json''))"
    using assms by (simp add: filepath_of_def)
  have 2: "tag_of e nm = (case tags e of Some (t # ts) \<Rightarrow> t | _ \<Rightarrow> nm)"
    by (simp add: tag_of_def split: option.splits list.splits)
  from strip_decomposition [of "tag_of e nm" "CHR '':''"] obtain i j core where
    d: "tag_of e nm = replicate i CHR '':'' @ core @ replicate j CHR '':''"
    and c: "core = [] \<or> hd core \<noteq> CHR '':'' \<and> last core \<noteq> CHR '':''"
    by (elim exE conjE)
  have "strip CHR '':'' (tag_of e nm) = core"
    by (subst d) (rule strip_core [OF c])
  then have k: "destination_key cp (tag_of e nm) =
              cp @ ''_'' @ map (\<lambda>x. if x = CHR ''-'' then CHR ''_'' else x) core"
    by (simp only: destination_key_def replace_def)
  have 3: "\<exists>i j core. tag_of e nm = replicate i CHR '':'' @ core @ replicate j CHR '':''
          \<and> (core = [] \<or> hd core \<noteq> CHR '':'' \<and> last core \<noteq> CHR '':'')
          \<and> destination_key cp (tag_of e nm) =
              cp @ ''_'' @ map (\<lambda>x. if x = CHR ''-'' then CHR ''_'' else x) core"
    by (rule exI [where x = i], rule exI [where x = j], rule exI [where x = core])
      (intro conjI d c k)
  from 1 2 3 show ?thesis by (intro conjI)
qed

subsection \<open>The properties on examples\<close>

lemma url_eq:
  "(primary_url a = fallback_url b) = (a = replace CHR '' '' CHR ''_'' b)"
  by (simp add: primary_url_def fallback_url_def)

lemma filepath_grinning: "filepath_of env grinning =
    Inr (path_join (output_dir env) ''1f600_smile.json'')"
  by (simp add: filepath_of_def grinning_def destination_key_def tag_of_def strip_def replace_def)

lemma filepath_artist: "filepath_of env artist =
    Inr (path_join (output_dir env) ''1f9d1 200d 1f3a8_artist.json'')"
  by (simp add: filepath_of_def artist_def destination_key_def tag_of_def strip_def replace_def)

lemma noto_join: "path_join ''noto'' (c # cs) = (if c = CHR ''/'' then c # cs else ''noto/'' @ c # cs)"
  by (simp add: path_join_def)

theorem present_file_is_skipped_witness:
  "filepath_of fallback_env grinning = Inr ''noto/1f600_smile.json''
   \<and> exists stocked_world ''noto/1f600_smile.json''
   \<and> download_one fallback_env grinning 0 1 stocked_world
       = (Inr (Skipped ''grinning face''), stocked_world)"
proof -
  have h1: "filepath_of fallback_env grinning = Inr ''noto/1f600_smile.json''"
    by (simp add: filepath_grinning fallback_env_def noto_join)
  have h2: "exists stocked_world ''noto/1f600_smile.json''"
    by (simp add: stocked_world_def exists_def)
  have n: "name grinning = Some ''grinning face''" by (simp add: grinning_def)
  have "download_one fallback_env grinning 0 1 stocked_world
       = (Inr (Skipped ''grinning face''), stocked_world)"
    using present_file_is_skipped [OF h1 h2 n, where i = 0 and n = 1] by (rule conjunct1)
  with h1 h2 show ?thesis by (intro conjI)
qed

lemma grinning_fields:
  "codepoint grinning = Some ''1f600''" "name grinning = Some ''grinning face''"
  by (simp_all add: grinning_def)

lemma artist_fields:
  "codepoint artist = Some ''1f9d1 200d 1f3a8''" "name artist = Some ''artist''"
  "tag_of artist ''artist'' = '':artist:''"
  by (simp_all add: artist_def tag_of_def)

lemma empty_world_fields:
  "\<not> exists empty_world p" "length (trace empty_world) = 0" "requests empty_world = []"
  by (simp_all add: empty_world_def exists_def requests_def)

lemma fallback_env_answers:
  "http_get fallback_env t (primary_url ''1f9d1 200d 1f3a8'') = Response 404 []"
  "http_get fallback_env t (fallback_url ''1f9d1 200d 1f3a8'') = Response 200 ''PAYLOAD''"
  "write_fault_at fallback_env t p = None"
  "output_dir fallback_env = ''noto''"
  by (simp_all add: fallback_env_def url_eq replace_def)

theorem fallback_only_after_status_witness:
  "\<not> exists empty_world ''noto/1f600_smile.json''
   \<and> download_one timeout_env grinning 0 1 empty_world
       = (Inr (Error ''grinning face'' (RequestException ''timed out'')),
          issue (primary_url ''1f600'') empty_world)"
proof -
  have h1: "filepath_of timeout_env grinning = Inr ''noto/1f600_smile.json''"
    by (simp add: filepath_grinning timeout_env_def noto_join)
  have h2: "\<not> exists empty_world ''noto/1f600_smile.json''"
    by (rule empty_world_fields)
  have g: "http_get timeout_env (length (trace empty_world)) (primary_url ''1f600'')
            = Raises (RequestException ''timed out'')"
    by (simp add: timeout_env_def)
  have "\<forall>ex. http_get timeout_env (length (trace empty_world)) (primary_url ''1f600'') = Raises ex
          \<longrightarrow> download_one timeout_env grinning 0 1 empty_world
                = (Inr (Error ''grinning face'' ex), issue (primary_url ''1f600'') empty_world)"
    using fallback_only_after_status [OF grinning_fields h1 h2, where i = 0 and n = 1]
    by (rule conjunct1)
  then have "http_get timeout_env (length (trace empty_world)) (primary_url ''1f600'')
            = Raises (RequestException ''timed out'')
          \<longrightarrow> download_one timeout_env grinning 0 1 empty_world
                = (Inr (Error ''grinning face'' (RequestException ''timed out'')),
                   issue (primary_url ''1f600'') empty_world)"
    by (rule spec)
  from this g have "download_one timeout_env grinning 0 1 empty_world
                = (Inr (Error ''grinning face'' (RequestException ''timed out'')),
                   issue (primary_url ''1f600'') empty_world)"
    by (rule mp)
  with h2 show ?thesis by (intro conjI)
qed

lemma artist_path: "filepath_of fallback_env artist = Inr ''noto/1f9d1 200d 1f3a8_artist.json''"
  by (simp add: filepath_artist fallback_env_answers noto_join)

theorem fallback_download_writes_body_witness:
  "\<exists>w'. download_one fallback_env artist 0 1 empty_world
           = (Inr (Ok (tag_of artist ''artist'') (of_nat (length ''PAYLOAD'') / 1024)), w')
       \<and> files w' ''noto/1f9d1 200d 1f3a8_artist.json'' = Some (Bytes ''PAYLOAD'')"
proof -
  have ne: "(404::int) \<noteq> 200" by simp
  show ?thesis
    by (rule fallback_download_writes_body [OF artist_fields(1,2) artist_path
          empty_world_fields(1) fallback_env_answers(1) ne fallback_env_answers(2,3)])
qed

theorem size_is_kilobytes_counterexample:
  "fst (download_one fallback_env artist 0 1 empty_world) = Inr (Ok '':artist:'' (7 / 1024))
   \<and> fst (download_one fallback_env artist 0 1 empty_world) \<noteq> Inr (Ok '':artist:'' 7)"
proof -
  have ne: "(404::int) \<noteq> 200" by simp
  from download_one_fallback_ok [OF artist_fields(1,2) artist_path
          empty_world_fields(1) fallback_env_answers(1) ne fallback_env_answers(2,3),
          where i = 0 and n = 1]
  obtain w' where "download_one fallback_env artist 0 1 empty_world
           = (Inr (Ok (tag_of artist ''artist'') (of_nat (length ''PAYLOAD'') / 1024)), w')"
    by blast
  then have "fst (download_one fallback_env artist 0 1 empty_world)
      = Inr (Ok '':artist:'' (7 / 1024))"
    by (simp add: artist_fields(3))
  then show ?thesis by simp
qed

lemma flaky_env_answers:
  "http_get flaky_env 0 u = Response 500 []"
  "http_get flaky_env (Suc t) u = Raises (RequestException ''timed out'')"
  "output_dir flaky_env = ''noto''"
  by (simp_all add: flaky_env_def)

theorem download_one_returns_outcome_witness:
  "fst (download_one flaky_env grinning 0 1 empty_world)
     = Inr (Error ''grinning face'' (RequestException ''timed out''))"
proof -
  have h1: "filepath_of flaky_env grinning = Inr ''noto/1f600_smile.json''"
    by (simp add: filepath_grinning flaky_env_answers noto_join)
  have hyp: "\<not> exists empty_world ''noto/1f600_smile.json''
        \<and> http_get flaky_env (length (trace empty_world)) (primary_url ''1f600'') = Response 500 []
        \<and> (500::int) \<noteq> 200
        \<and> http_get flaky_env (Suc (length (trace empty_world))) (fallback_url ''1f600'')
            = Raises (RequestException ''timed out'')"
    by (simp add: empty_world_fields flaky_env_answers)
  have "\<not> exists empty_world ''noto/1f600_smile.json''
        \<and> http_get flaky_env (length (trace empty_world)) (primary_url ''1f600'') = Response 500 []
        \<and> (500::int) \<noteq> 200
        \<and> http_get flaky_env (Suc (length (trace empty_world))) (fallback_url ''1f600'')
            = Raises (RequestException ''timed out'')
        \<longrightarrow> fst (download_one flaky_env grinning 0 1 empty_world)
            = Inr (Error ''grinning face'' (RequestException ''timed out''))"
    using download_one_returns_outcome [OF grinning_fields h1,
        where i = 0 and n = 1 and w = empty_world and st = 500 and body = "[]"
          and ex = "RequestException ''timed out''"]
    by (rule conjunct2 [THEN conjunct1])
  from this hyp show ?thesis by (rule mp)
qed

lemma timeout_env_fields:
  "catalog_get timeout_env = CatalogResponse 200 (Inr [artist, grinning])"
  "output_dir timeout_env = ''noto''"
  "write_fault_at timeout_env t p = None"
  by (simp_all add: timeout_env_def)

lemma timeout_run:
  "\<exists>c idx w'. download_all timeout_env empty_world = (Inr (Completed c idx), w')"
proof (rule download_all_completes [OF empty_world_fields(1) timeout_env_fields(1)])
  show "\<forall>e \<in> set [artist, grinning]. codepoint e \<noteq> None \<and> name e \<noteq> None"
    by (simp add: artist_fields grinning_fields)
  show "\<forall>t. write_fault_at timeout_env t (meta_path timeout_env) = None
           \<and> write_fault_at timeout_env t (cat_path timeout_env) = None"
    by (simp add: timeout_env_fields)
qed


lemma flaky_env_catalog: "catalog_get flaky_env = CatalogResponse 404 (Inr [])"
  by (simp add: flaky_env_def)

theorem catalog_status_decides_early_return_witness:
  "catalog_get flaky_env = CatalogResponse 404 (Inr []) \<and> (404::int) \<noteq> 200
   \<and> download_all flaky_env empty_world = (Inr (CatalogFailed 404), issue DATA_URL empty_world)
   \<and> exit_status (fst (download_all flaky_env empty_world)) = 0"
proof -
  have hyp: "catalog_get flaky_env = CatalogResponse 404 (Inr []) \<and> (404::int) \<noteq> 200"
    by (simp add: flaky_env_catalog)
  have "\<forall>st body. catalog_get flaky_env = CatalogResponse st body \<and> st \<noteq> 200 \<longrightarrow>
            download_all flaky_env empty_world = (Inr (CatalogFailed st), issue DATA_URL empty_world)
            \<and> exit_status (fst (download_all flaky_env empty_world)) = 0
            \<and> files (snd (download_all flaky_env empty_world)) = files empty_world"
    using catalog_status_decides_early_return [OF empty_world_fields(1), where env = flaky_env]
    by (rule conjunct1)
  then have "catalog_get flaky_env = CatalogResponse 404 (Inr []) \<and> (404::int) \<noteq> 200 \<longrightarrow>
            download_all flaky_env empty_world = (Inr (CatalogFailed 404), issue DATA_URL empty_world)
            \<and> exit_status (fst (download_all flaky_env empty_world)) = 0
            \<and> files (snd (download_all flaky_env empty_world)) = files empty_world"
    by blast
  from this hyp have "download_all flaky_env empty_world = (Inr (CatalogFailed 404), issue DATA_URL empty_world)
            \<and> exit_status (fst (download_all flaky_env empty_world)) = 0
            \<and> files (snd (download_all flaky_env empty_world)) = files empty_world"
    by (rule mp)
  with hyp show ?thesis by blast
qed

theorem nonzero_exit_counterexample:
  "catalog_get flaky_env = CatalogResponse 404 (Inr [])
   \<and> exit_status (fst (download_all flaky_env empty_world)) = 0"
proof -
  have ne: "(404::int) \<noteq> 200" by simp
  have "download_all flaky_env empty_world = (Inr (CatalogFailed 404), issue DATA_URL empty_world)"
    by (rule download_all_catalog_failed [OF empty_world_fields(1) flaky_env_catalog ne])
  then have "exit_status (fst (download_all flaky_env empty_world)) = 0"
    by (simp add: exit_status_def)
  with flaky_env_catalog show ?thesis by (intro conjI)
qed


lemma example_summaries:
  "summary_of artist = Inr artist_summary" "summary_of grinning = Inr grinning_summary"
  "categories_of artist = [''People'', ''Activities'']" "categories_of grinning = [''Other'']"
  by (simp_all add: summary_of_def categories_of_def artist_def grinning_def
        artist_summary_def grinning_summary_def)

lemma example_index: "build_index [artist, grinning] [] = Inr people_first"
  by (simp add: example_summaries people_first_def)

lemma grinning_index: "build_index ([] @ grinning # []) [] = Inr [(''Other'', [grinning_summary])]"
  by (simp add: example_summaries)

lemma people_first_unsorted: "\<not> sorted (map fst people_first)"
  by (simp add: people_first_def)

lemma written: "write_file env p c w = (None, w') \<Longrightarrow> files w' p = Some c"
  by (auto simp: write_file_def split: option.splits write_fault.splits)

theorem categories_file_keeps_insertion_order_witness:
  "files (snd (download_all timeout_env empty_world)) (cat_path timeout_env)
     = Some (IndexJson people_first)
   \<and> map fst people_first
     = rev (remdups (rev (concat (map categories_of [artist, grinning]))))
   \<and> sorted (map fst (category_listing people_first))"
proof -
  from timeout_run obtain c idx w' where
    run: "download_all timeout_env empty_world = (Inr (Completed c idx), w')" by blast
  from download_all_completed [OF timeout_env_fields(1) run] example_index
  have idx: "idx = people_first" by auto
  note t = categories_file_keeps_insertion_order [OF timeout_env_fields(1) run]
  from t have 1: "files w' (cat_path timeout_env) = Some (IndexJson idx)" by (rule conjunct1)
  from t have 2: "map fst idx = rev (remdups (rev (concat (map categories_of [artist, grinning]))))"
    by (rule conjunct2 [THEN conjunct1])
  from t have 3: "sorted (map fst (category_listing idx))"
    by (rule conjunct2 [THEN conjunct2, THEN conjunct1])
  from run have s: "snd (download_all timeout_env empty_world) = w'" by simp
  from 1 2 3 show ?thesis unfolding s idx by (intro conjI)
qed

theorem categories_file_unsorted_counterexample:
  "files (snd (download_all timeout_env empty_world)) (cat_path timeout_env)
     = Some (IndexJson people_first)
   \<and> \<not> sorted (map fst people_first)"
proof -
  from timeout_run obtain c idx w' where
    run: "download_all timeout_env empty_world = (Inr (Completed c idx), w')" by blast
  from download_all_completed [OF timeout_env_fields(1) run] obtain w2 where
    b: "build_index [artist, grinning] [] = Inr idx"
    and w: "write_file timeout_env (cat_path timeout_env) (IndexJson idx) w2 = (None, w')"
    by blast
  from b example_index have idx: "idx = people_first" by simp
  from written [OF w] have "files w' (cat_path timeout_env) = Some (IndexJson people_first)"
    unfolding idx .
  moreover from run have "snd (download_all timeout_env empty_world) = w'" by simp
  ultimately have "files (snd (download_all timeout_env empty_world)) (cat_path timeout_env)
     = Some (IndexJson people_first)" by simp
  with people_first_unsorted show ?thesis by (intro conjI)
qed

lemma sandwich_index:
  "build_index ([artist] @ grinning # [artist]) [] =
     Inr [(''People'', [artist_summary, artist_summary]),
          (''Activities'', [artist_summary, artist_summary]),
          (''Other'', [grinning_summary])]"
  by (simp add: example_summaries)

theorem absent_categories_only_under_other_witness:
  "build_index ([artist] @ grinning # [artist]) [] =
     Inr [(''People'', [artist_summary, artist_summary]),
          (''Activities'', [artist_summary, artist_summary]),
          (''Other'', [grinning_summary])]
   \<and> (\<exists>before after.
      build_index [artist] [] = Inr before
    \<and> build_index [artist] [] = Inr after
    \<and> (categories grinning = None \<longrightarrow>
         (\<exists>s. summary_of grinning = Inr s
            \<and> entries [(''People'', [artist_summary, artist_summary]),
                 (''Activities'', [artist_summary, artist_summary]),
                 (''Other'', [grinning_summary])] ''Other''
               = entries before ''Other'' @ [s] @ entries after ''Other'')
       \<and> (\<forall>c. c \<noteq> ''Other'' \<longrightarrow>
            entries [(''People'', [artist_summary, artist_summary]),
                 (''Activities'', [artist_summary, artist_summary]),
                 (''Other'', [grinning_summary])] c
              = entries before c @ entries after c)
       \<and> set (map fst [(''People'', [artist_summary, artist_summary]),
                 (''Activities'', [artist_summary, artist_summary]),
                 (''Other'', [grinning_summary])])
           = insert ''Other'' (set (map fst before) \<union> set (map fst after)))
    \<and> (categories grinning = Some [] \<longrightarrow>
         build_index ([artist] @ [artist]) [] =
           Inr [(''People'', [artist_summary, artist_summary]),
                (''Activities'', [artist_summary, artist_summary]),
                (''Other'', [grinning_summary])]
       \<and> (\<forall>c. entries [(''People'', [artist_summary, artist_summary]),
                 (''Activities'', [artist_summary, artist_summary]),
                 (''Other'', [grinning_summary])] c
              = entries before c @ entries after c)
       \<and> set (map fst [(''People'', [artist_summary, artist_summary]),
                 (''Activities'', [artist_summary, artist_summary]),
                 (''Other'', [grinning_summary])])
           = set (map fst before) \<union> set (map fst after)))"
  by (intro conjI sandwich_index absent_categories_only_under_other [OF sandwich_index])

theorem empty_categories_counterexample:
  "categories uncategorised = Some []
   \<and> build_index [uncategorised] [] = Inr []
   \<and> entries [] ''Other'' = []"
  by (simp add: uncategorised_def categories_of_def entries_def)

theorem destination_key_strips_both_ends_witness:
  "filepath_of timeout_env grinning =
     Inr (path_join (output_dir timeout_env)
       (destination_key ''1f600'' (tag_of grinning ''grinning face'') @ ''.json''))
   \<and> tag_of grinning ''grinning face''
       = (case tags grinning of Some (t # ts) \<Rightarrow> t | _ \<Rightarrow> ''grinning face'')
   \<and> (\<exists>i j core.
         tag_of grinning ''grinning face'' = replicate i CHR '':'' @ core @ replicate j CHR '':''
       \<and> (core = [] \<or> hd core \<noteq> CHR '':'' \<and> last core \<noteq> CHR '':'')
       \<and> destination_key ''1f600'' (tag_of grinning ''grinning face'') =
           ''1f600'' @ ''_'' @ map (\<lambda>x. if x = CHR ''-'' then CHR ''_'' else x) core)"
  by (rule destination_key_strips_both_ends [OF grinning_fields])

theorem prefix_only_counterexample:
  "destination_key ''1f600'' (tag_of grinning ''grinning face'') = ''1f600_smile''
   \<and> spec_destination_key ''1f600'' (tag_of grinning ''grinning face'') = ''1f600_smile:''"
  by (simp add: destination_key_def spec_destination_key_def spec_normalized_tag_def
        tag_of_def grinning_def strip_def replace_def)

end
